theory Spec2Isabelle
  imports Main "HOL-Library.Char_ord" "HOL-Library.List_Lexorder" "HOL-Library.Multiset"
begin

section \<open>Byte strings\<close>

text \<open>
  The program works on Python \<^verbatim>\<open>bytes\<close>. A byte string is a list of characters
  (a \<^typ>\<open>char\<close> is one byte); bytes are compared by value and byte strings
  lexicographically, as Python compares them.
\<close>

type_synonym bytes = string
type_synonym domain = string

text \<open>
  \<^verbatim>\<open>s.split(sep)\<close> with a one-byte separator: cut at every separator, keep empty
  pieces, always at least one piece. \<open>split_where\<close> cuts at every byte satisfying \<open>p\<close>.
\<close>

fun split_where :: "(char \<Rightarrow> bool) \<Rightarrow> bytes \<Rightarrow> bytes list" where
  "split_where p [] = [[]]"
| "split_where p (c # cs) =
     (if p c then [] # split_where p cs
      else (case split_where p cs of
              [] \<Rightarrow> [[c]]
            | w # ws \<Rightarrow> (c # w) # ws))"

definition split_on :: "char \<Rightarrow> bytes \<Rightarrow> bytes list" where
  "split_on sep s = split_where (\<lambda>c. c = sep) s"

text \<open>\<^verbatim>\<open>sep.join(parts)\<close> with a one-byte separator.\<close>

fun join_on :: "char \<Rightarrow> bytes list \<Rightarrow> bytes" where
  "join_on sep [] = []"
| "join_on sep [w] = w"
| "join_on sep (w # v # ws) = w @ sep # join_on sep (v # ws)"

text \<open>ASCII whitespace, as \<^verbatim>\<open>bytes.split()\<close> and \<^verbatim>\<open>bytes.strip()\<close> understand it.\<close>

definition is_space :: "char \<Rightarrow> bool" where
  "is_space c \<longleftrightarrow>
     c = CHR '' '' \<or> c = CHR 0x09 \<or> c = CHR 0x0A \<or> c = CHR 0x0B \<or> c = CHR 0x0C \<or> c = CHR 0x0D"

text \<open>\<^verbatim>\<open>s.split()\<close>: the maximal runs of non-whitespace bytes.\<close>

definition split_ws :: "bytes \<Rightarrow> bytes list" where
  "split_ws s = filter (\<lambda>w. w \<noteq> []) (split_where is_space s)"

text \<open>\<^verbatim>\<open>s.strip()\<close>: drop leading and trailing whitespace.\<close>

definition strip :: "bytes \<Rightarrow> bytes" where
  "strip s = rev (dropWhile is_space (rev (dropWhile is_space s)))"

text \<open>\<^verbatim>\<open>s.replace(b'\t', b' ')\<close>.\<close>

definition expand_tabs :: "bytes \<Rightarrow> bytes" where
  "expand_tabs s = map (\<lambda>c. if c = CHR 0x09 then CHR '' '' else c) s"

text \<open>
  \<^verbatim>\<open>bytes.splitlines()\<close>: lines end at LF, CR or CRLF; no empty last line after a
  final line end; the empty input has no line.
\<close>

fun splitlines_from :: "bytes \<Rightarrow> bytes \<Rightarrow> bytes list" where
  "splitlines_from acc [] = (if acc = [] then [] else [rev acc])"
| "splitlines_from acc (c # cs) =
     (if c = CHR 0x0A then rev acc # splitlines_from [] cs
      else if c = CHR 0x0D then
        (case cs of
           [] \<Rightarrow> [rev acc]
         | d # ds \<Rightarrow> if d = CHR 0x0A then rev acc # splitlines_from [] ds
                    else rev acc # splitlines_from [] cs)
      else splitlines_from (c # acc) cs)"

definition splitlines :: "bytes \<Rightarrow> bytes list" where
  "splitlines s = splitlines_from [] s"

section \<open>Errors\<close>

text \<open>
  \<^verbatim>\<open>quit(n)\<close> ends the run with exit status \<open>n\<close>; \<^verbatim>\<open>set.remove\<close> of a missing element
  raises \<^verbatim>\<open>KeyError\<close>; reading an undecodable file in text mode raises
  \<^verbatim>\<open>UnicodeDecodeError\<close>; creating a file that exists with mode \<^verbatim>\<open>'x'\<close> raises
  \<^verbatim>\<open>FileExistsError\<close>. Nothing in the program catches any of them.
\<close>

datatype error = SystemExit nat | KeyError | UnicodeDecodeError | FileExistsError

section \<open>Removing redundant rules\<close>

text \<open>
  \<^verbatim>\<open>
  def prune_redundant_rules(domains):
      domains_orig = copy.deepcopy(domains)
      for domain in domains_orig:
          domain_parts_msb = list(reversed(domain.split(b'.')))
          for index in range(len(domain_parts_msb)):
              domain_to_check = b'.'.join(domain_parts_msb[0:index])
              if domain_to_check in domains_orig:
                  domains.remove(domain)
  \<close>
  The inner loop: \<open>orig\<close> is the snapshot, \<open>doms\<close> the set being mutated. There is no
  \<^verbatim>\<open>break\<close> after the removal, and \<^verbatim>\<open>remove\<close> raises when the element is gone.
\<close>

fun prune_indices :: "domain set \<Rightarrow> domain \<Rightarrow> bytes list \<Rightarrow> nat list \<Rightarrow> domain set
    \<Rightarrow> error + domain set" where
  "prune_indices orig d parts_msb [] doms = Inr doms"
| "prune_indices orig d parts_msb (i # is) doms =
     (if join_on CHR ''.'' (take i parts_msb) \<in> orig
      then (if d \<in> doms then prune_indices orig d parts_msb is (doms - {d})
            else Inl KeyError)
      else prune_indices orig d parts_msb is doms)"

definition domain_parts_msb :: "domain \<Rightarrow> bytes list" where
  "domain_parts_msb d = rev (split_on CHR ''.'' d)"

text \<open>The outer loop, over the snapshot in its iteration order \<open>ds\<close>.\<close>

fun prune_domains :: "domain set \<Rightarrow> domain list \<Rightarrow> domain set \<Rightarrow> error + domain set" where
  "prune_domains orig [] doms = Inr doms"
| "prune_domains orig (d # ds) doms =
     (case prune_indices orig d (domain_parts_msb d) [0..<length (domain_parts_msb d)] doms of
        Inl e \<Rightarrow> Inl e
      | Inr doms' \<Rightarrow> prune_domains orig ds doms')"

text \<open>
  The argument lists the elements of the set in the order Python iterates over the
  copy; the result is the set as mutated in place, or the uncaught exception.
\<close>

definition prune_redundant_rules :: "domain list \<Rightarrow> error + domain set" where
  "prune_redundant_rules ds = prune_domains (set ds) ds (set ds)"

text \<open>
  For the analysis of the two loops: the indices at which the inner loop finds its
  \<^verbatim>\<open>domain_to_check\<close> in the snapshot. A domain with no such index is kept, with one
  it is removed, with two or more the second \<^verbatim>\<open>remove\<close> raises.
\<close>

definition hits :: "domain set \<Rightarrow> bytes list \<Rightarrow> nat list \<Rightarrow> nat list" where
  "hits orig parts_msb is = filter (\<lambda>i. join_on CHR ''.'' (take i parts_msb) \<in> orig) is"

definition redundant :: "domain set \<Rightarrow> domain \<Rightarrow> bool" where
  "redundant orig d \<longleftrightarrow>
     hits orig (domain_parts_msb d) [0..<length (domain_parts_msb d)] \<noteq> []"

definition hit_twice :: "domain set \<Rightarrow> domain \<Rightarrow> bool" where
  "hit_twice orig d \<longleftrightarrow>
     2 \<le> length (hits orig (domain_parts_msb d) [0..<length (domain_parts_msb d)])"

section \<open>Grouping by top-level label\<close>

text \<open>
  \<^verbatim>\<open>
  def group_by_tld(domains):
      sorted_output = []
      reversed_domains = []
      for domain in domains:
          rev_domain = domain.split(b'.')
          rev_domain.reverse()
          reversed_domains.append(rev_domain)
      reversed_domains.sort()
      for rev_domain in reversed_domains:
          rev_domain.reverse()
          sorted_output.append(b'.'.join(rev_domain))
      return sorted_output
  \<close>
  \<^verbatim>\<open>list.sort()\<close> on lists of byte strings orders them lexicographically, label by
  label and byte by byte; \<open>sort\<close> returns the ascending permutation, which on a linear
  order is the only one.
\<close>

definition group_by_tld :: "domain list \<Rightarrow> domain list" where
  "group_by_tld domains =
     map (\<lambda>rev_domain. join_on CHR ''.'' (rev rev_domain))
       (sort (map (\<lambda>domain. rev (split_on CHR ''.'' domain)) domains))"

section \<open>Reading domain sets\<close>

text \<open>
  \<^verbatim>\<open>
  def remove_comments_from_bytes(line):
      uncommented_line = b''
      for char in line:
          char = bytes([char])
          if char != b'#':
              uncommented_line += char
          else:
              break
      return uncommented_line
  \<close>
\<close>

fun remove_comments_from_bytes :: "bytes \<Rightarrow> bytes" where
  "remove_comments_from_bytes [] = []"
| "remove_comments_from_bytes (c # cs) =
     (if c \<noteq> CHR ''#'' then c # remove_comments_from_bytes cs else [])"

text \<open>\<^verbatim>\<open>b'.'.join(list(filter(None, line.split(b'.'))))\<close>, used by both readers.\<close>

definition drop_empty_labels :: "bytes \<Rightarrow> bytes" where
  "drop_empty_labels line =
     join_on CHR ''.'' (filter (\<lambda>label. label \<noteq> []) (split_on CHR ''.'' line))"

text \<open>
  The local list files:
  \<^verbatim>\<open>
  for line in lines:
      line = line.strip()
      line = remove_comments_from_bytes(line)
      line = b'.'.join(list(filter(None, line.split(b'.'))))
      if len(line) > 0:
          domains.add(line)
  \<close>
\<close>

definition dnsgate_format_line :: "bytes \<Rightarrow> bytes" where
  "dnsgate_format_line line =
     (let line = strip line;
          line = remove_comments_from_bytes line
      in drop_empty_labels line)"

fun dnsgate_format_lines :: "bytes list \<Rightarrow> domain set \<Rightarrow> domain set" where
  "dnsgate_format_lines [] domains = domains"
| "dnsgate_format_lines (line # lines) domains =
     (let line = dnsgate_format_line line
      in if length line > 0 then dnsgate_format_lines lines (insert line domains)
         else dnsgate_format_lines lines domains)"

text \<open>The argument is the content of the file (\<^verbatim>\<open>read_file_bytes\<close>).\<close>

definition extract_domain_set_from_dnsgate_format_file :: "bytes \<Rightarrow> domain set" where
  "extract_domain_set_from_dnsgate_format_file dnsgate_file_bytes =
     dnsgate_format_lines (splitlines dnsgate_file_bytes) {}"

text \<open>
  The remote lists:
  \<^verbatim>\<open>
  for line in hosts_format_bytes_lines:
      line = line.replace(b'\t', b' ')         # expand tabs
      line = b' '.join(line.split())           # collapse whitespace
      line = line.strip()
      line = remove_comments_from_bytes(line)
      if b' ' in line:                         # hosts format
          line = line.split(b' ')[1]
          line = b'.'.join(list(filter(None, line.split(b'.'))))
          domains.add(line)
  \<close>
  The index \<open>1\<close> is in range under the guard (\<open>hosts_format_field_in_range\<close> below).
\<close>

definition hosts_format_line :: "bytes \<Rightarrow> bytes" where
  "hosts_format_line line =
     (let line = expand_tabs line;
          line = join_on CHR '' '' (split_ws line);
          line = strip line
      in remove_comments_from_bytes line)"

fun hosts_format_lines :: "bytes list \<Rightarrow> domain set \<Rightarrow> domain set" where
  "hosts_format_lines [] domains = domains"
| "hosts_format_lines (line # lines) domains =
     (let line = hosts_format_line line
      in if CHR '' '' \<in> set line
         then hosts_format_lines lines
                (insert (drop_empty_labels (split_on CHR '' '' line ! 1)) domains)
         else hosts_format_lines lines domains)"

definition extract_domain_set_from_hosts_format_bytes :: "bytes \<Rightarrow> domain set" where
  "extract_domain_set_from_hosts_format_bytes hosts_format_bytes =
     hosts_format_lines (split_on CHR 0x0A hosts_format_bytes) {}"

text \<open>
  \<^verbatim>\<open>
  def validate_domain_list(domains):
      valid_domains = set([])
      for hostname in domains:
          try:
              hostname = hostname.decode('utf-8')
              hostname = hostname.encode('idna').decode('ascii')
              valid_domains.add(hostname.encode('utf-8'))
          except Exception as e:
              eprint(...)
      return valid_domains
  \<close>
  The codec belongs to the Python library: \<open>idna\<close> is a parameter, \<open>None\<close> where the
  codec raises. A set that a function iterates over is passed as the list of its
  elements in iteration order.
\<close>

fun validate_domains :: "(bytes \<Rightarrow> bytes option) \<Rightarrow> domain list \<Rightarrow> domain set \<Rightarrow> domain set" where
  "validate_domains idna [] valid_domains = valid_domains"
| "validate_domains idna (hostname # rest) valid_domains =
     (case idna hostname of
        Some encoded \<Rightarrow> validate_domains idna rest (insert encoded valid_domains)
      | None \<Rightarrow> validate_domains idna rest valid_domains)"

definition validate_domain_list :: "(bytes \<Rightarrow> bytes option) \<Rightarrow> domain list \<Rightarrow> domain set" where
  "validate_domain_list idna domains = validate_domains idna domains {}"

section \<open>Reconciling blacklist and whitelist\<close>

text \<open>
  \<^verbatim>\<open>extract_psl_domain\<close> asks the \<^verbatim>\<open>tldextract\<close> library, which works from the public
  suffix list: \<open>psl\<close> is a parameter.
  \<^verbatim>\<open>
  def strip_to_psl(domains):
      domains_stripped = set()
      for line in domains:
          line = extract_psl_domain(line)
          domains_stripped.add(line)
      return domains_stripped
  \<close>
\<close>

fun strip_domains :: "(domain \<Rightarrow> domain) \<Rightarrow> domain list \<Rightarrow> domain set \<Rightarrow> domain set" where
  "strip_domains psl [] domains_stripped = domains_stripped"
| "strip_domains psl (line # rest) domains_stripped =
     strip_domains psl rest (insert (psl line) domains_stripped)"

definition strip_to_psl :: "(domain \<Rightarrow> domain) \<Rightarrow> domain list \<Rightarrow> domain set" where
  "strip_to_psl psl domains = strip_domains psl domains {}"

text \<open>
  \<^verbatim>\<open>
  for domain in domains_whitelist:
      domain_psl = extract_psl_domain(domain)
      if domain_psl in domains_combined:
          domains_combined.remove(domain_psl)
  \<close>
\<close>

fun unblock_whitelisted :: "(domain \<Rightarrow> domain) \<Rightarrow> domain list \<Rightarrow> domain set \<Rightarrow> domain set" where
  "unblock_whitelisted psl [] domains_combined = domains_combined"
| "unblock_whitelisted psl (domain # rest) domains_combined =
     (let domain_psl = psl domain
      in if domain_psl \<in> domains_combined
         then unblock_whitelisted psl rest (domains_combined - {domain_psl})
         else unblock_whitelisted psl rest domains_combined)"

text \<open>
  \<^verbatim>\<open>
  for orig_domain in domains_combined_orig: # check every original full hostname
      if orig_domain not in domains_whitelist: # if it's not in the whitelist
          if orig_domain not in domains_combined: # and it's not in the current blacklist
              # get it's psl to see if it's already blocked
              orig_domain_psl = extract_psl_domain(orig_domain)
              if orig_domain_psl not in domains_combined: # if the psl is not already blocked
                  domains_combined.add(orig_domain) # add the full hostname to the blacklist
  \<close>
\<close>

fun readd_subdomains :: "(domain \<Rightarrow> domain) \<Rightarrow> domain set \<Rightarrow> domain list \<Rightarrow> domain set
    \<Rightarrow> domain set" where
  "readd_subdomains psl domains_whitelist [] domains_combined = domains_combined"
| "readd_subdomains psl domains_whitelist (orig_domain # rest) domains_combined =
     (if orig_domain \<notin> domains_whitelist then
        (if orig_domain \<notin> domains_combined then
           (let orig_domain_psl = psl orig_domain
            in if orig_domain_psl \<notin> domains_combined
               then readd_subdomains psl domains_whitelist rest
                      (insert orig_domain domains_combined)
               else readd_subdomains psl domains_whitelist rest domains_combined)
         else readd_subdomains psl domains_whitelist rest domains_combined)
      else readd_subdomains psl domains_whitelist rest domains_combined)"

text \<open>
  The reconciliation inside \<^verbatim>\<open>generate\<close>, from the copy of the validated source
  domains to the union with the local blacklist. \<open>domains_combined_orig\<close> and
  \<open>domains_whitelist\<close> are iterated over, so they are lists in iteration order;
  \<open>domains_blacklist\<close> is the set read from the local blacklist file (empty when the
  file is missing); the code skips the union when that set is empty, which changes
  nothing. \<^verbatim>\<open>quit(1)\<close> is \<open>SystemExit 1\<close>. Log messages are not part of the model.
\<close>

definition reconcile :: "(domain \<Rightarrow> domain) \<Rightarrow> string \<Rightarrow> bool \<Rightarrow> domain list \<Rightarrow> domain list
    \<Rightarrow> domain set \<Rightarrow> error + domain set" where
  "reconcile psl mode block_at_psl domains_combined_orig domains_whitelist domains_blacklist =
     (if block_at_psl \<and> mode \<noteq> ''hosts'' then
        (let domains_combined = strip_to_psl psl domains_combined_orig;
             domains_combined =
               (if domains_whitelist \<noteq> []
                then unblock_whitelisted psl domains_whitelist
                       (domains_combined - set domains_whitelist)
                else domains_combined);
             domains_combined =
               readd_subdomains psl (set domains_whitelist) domains_combined_orig
                 domains_combined;
             domains_combined = domains_combined - set domains_whitelist
         in Inr (domains_combined \<union> domains_blacklist))
      else if block_at_psl \<and> mode = ''hosts'' then Inl (SystemExit 1)
      else Inr ((set domains_combined_orig - set domains_whitelist) \<union> domains_blacklist))"

section \<open>The run\<close>

text \<open>
  The configuration object (\<^verbatim>\<open>class Dnsgate_Config\<close>); \<open>dest_ip\<close> is tested for
  truth, which for a string means non-empty.
\<close>

record Dnsgate_Config =
  mode :: string
  no_restart_dnsmasq :: bool
  backup :: bool
  block_at_psl :: bool
  dest_ip :: string

text \<open>
  The files the run touches: the local whitelist and blacklist (\<open>None\<close> when the file
  does not exist), the output file, the backups made of it (the time stamp that ends
  the name of each, with its content), and how often the resolver was restarted.
  Access rights are not part of the model.
\<close>

record filesystem =
  whitelist_file :: "bytes option"
  blacklist_file :: "bytes option"
  output_file :: "bytes option"
  backup_files :: "(string \<times> bytes) list"
  dnsmasq_restarts :: nat

text \<open>
  Python does not fix the order in which a set is iterated: \<open>iter\<close> is a parameter that
  lists the elements of a set, each once.
\<close>

definition iterates :: "(domain set \<Rightarrow> domain list) \<Rightarrow> bool" where
  "iterates iter \<longleftrightarrow> (\<forall>S. finite S \<longrightarrow> set (iter S) = S \<and> distinct (iter S))"

text \<open>
  \<^verbatim>\<open>
  try:
      domains_whitelist = extract_domain_set_from_dnsgate_format_file(whitelist_file)
  except FileNotFoundError:
      domains_whitelist = set()
  else:
      if domains_whitelist:
          domains_whitelist = validate_domain_list(domains_whitelist)
  \<close>
\<close>

definition read_whitelist :: "(bytes \<Rightarrow> bytes option) \<Rightarrow> (domain set \<Rightarrow> domain list)
    \<Rightarrow> bytes option \<Rightarrow> domain set" where
  "read_whitelist idna iter file =
     (case file of
        None \<Rightarrow> {}
      | Some file_bytes \<Rightarrow>
          (let domains_whitelist = extract_domain_set_from_dnsgate_format_file file_bytes
           in if domains_whitelist \<noteq> {}
              then validate_domain_list idna (iter domains_whitelist)
              else domains_whitelist))"

text \<open>
  The sources: each configured item comes with what fetching it gave (\<open>None\<close> when the
  fetch or the parse raised). An item that does not start with \<^verbatim>\<open>http\<close>, a failed
  fetch and an empty result all leave the combined set as it is.
\<close>

fun read_sources :: "(string \<times> bytes option) list \<Rightarrow> domain set \<Rightarrow> domain set" where
  "read_sources [] domains_combined_orig = domains_combined_orig"
| "read_sources ((item, fetched) # rest) domains_combined_orig =
     (if take 4 item = ''http'' then
        (case fetched of
           None \<Rightarrow> read_sources rest domains_combined_orig
         | Some hosts_format_bytes \<Rightarrow>
             (let domains = extract_domain_set_from_hosts_format_bytes hosts_format_bytes
              in if domains \<noteq> {}
                 then read_sources rest (domains_combined_orig \<union> domains)
                 else read_sources rest domains_combined_orig))
      else read_sources rest domains_combined_orig)"

text \<open>
  \<^verbatim>\<open>
  try:
      domains_blacklist = extract_domain_set_from_dnsgate_format_file(blacklist_file)
  except FileNotFoundError:
      domains_blacklist = set()
  \<close>
\<close>

definition read_blacklist :: "bytes option \<Rightarrow> domain set" where
  "read_blacklist file =
     (case file of
        None \<Rightarrow> {}
      | Some file_bytes \<Rightarrow> extract_domain_set_from_dnsgate_format_file file_bytes)"

text \<open>
  \<^verbatim>\<open>generate\<close> up to \<^verbatim>\<open>domains_combined = group_by_tld(domains_combined)\<close>: read,
  validate, reconcile, validate again, prune, sort.
\<close>

definition final_domains :: "(domain \<Rightarrow> domain) \<Rightarrow> (bytes \<Rightarrow> bytes option)
    \<Rightarrow> (domain set \<Rightarrow> domain list) \<Rightarrow> Dnsgate_Config \<Rightarrow> (string \<times> bytes option) list
    \<Rightarrow> filesystem \<Rightarrow> error + domain list" where
  "final_domains psl idna iter config sources fs =
     (let domains_whitelist = read_whitelist idna iter (whitelist_file fs);
          domains_combined_orig = read_sources sources {};
          domains_combined_orig = validate_domain_list idna (iter domains_combined_orig)
      in case reconcile psl (mode config) (block_at_psl config) (iter domains_combined_orig)
                (iter domains_whitelist) (read_blacklist (blacklist_file fs)) of
           Inl e \<Rightarrow> Inl e
         | Inr domains_combined \<Rightarrow>
             (let domains_combined = validate_domain_list idna (iter domains_combined)
              in case prune_redundant_rules (iter domains_combined) of
                   Inl e \<Rightarrow> Inl e
                 | Inr domains_combined \<Rightarrow> Inr (group_by_tld (iter domains_combined))))"

text \<open>
  \<^verbatim>\<open>
  def backup_file_if_exists(file_to_backup):
      timestamp = str(time.time())
      dest_file = file_to_backup.name + '.bak.' + timestamp
      try:
          with open(file_to_backup.name, 'r') as sf:
              with open(dest_file, 'x') as df:
                  copyfileobj(sf, df)
      except FileNotFoundError:
          pass    # skip backup if file does not exist
  \<close>
  Both files are opened in text mode, and only \<^verbatim>\<open>FileNotFoundError\<close> is caught. A missing
  output file is skipped. Otherwise the destination is created, which raises when a
  file of that name exists, and the content is copied through the locale's codec with
  newline translation: \<open>copy_text\<close>, a parameter, gives what arrives in the destination,
  either the whole text or what was written before decoding raised. \<open>timestamp\<close> is
  \<^verbatim>\<open>str(time.time())\<close>. The result is the exception, if any, and the files afterwards.
\<close>

datatype text_copy = Copied bytes | Undecodable bytes

definition backup_file_if_exists :: "(bytes \<Rightarrow> text_copy) \<Rightarrow> string \<Rightarrow> filesystem
    \<Rightarrow> (error + unit) \<times> filesystem" where
  "backup_file_if_exists copy_text timestamp fs =
     (case output_file fs of
        None \<Rightarrow> (Inr (), fs)
      | Some content \<Rightarrow>
          if timestamp \<in> fst ` set (backup_files fs) then (Inl FileExistsError, fs)
          else
            (case copy_text content of
               Copied text \<Rightarrow>
                 (Inr (), fs\<lparr>backup_files := (timestamp, text) # backup_files fs\<rparr>)
             | Undecodable written \<Rightarrow>
                 (Inl UnicodeDecodeError,
                  fs\<lparr>backup_files := (timestamp, written) # backup_files fs\<rparr>)))"

text \<open>One line of the output file for one domain.\<close>

definition output_line :: "Dnsgate_Config \<Rightarrow> domain \<Rightarrow> bytes" where
  "output_line config domain =
     (if mode config = ''dnsmasq'' then
        (if dest_ip config \<noteq> []
         then ''address=/.'' @ domain @ ''/'' @ dest_ip config @ [CHR 0x0A]
         else ''server=/.'' @ domain @ ''/'' @ [CHR 0x0A])
      else if mode config = ''hosts'' then
        (if dest_ip config \<noteq> []
         then dest_ip config @ '' '' @ domain @ [CHR 0x0A]
         else ''127.0.0.1'' @ '' '' @ domain @ [CHR 0x0A])
      else [])"

text \<open>
  The rest of \<^verbatim>\<open>generate\<close>:
  \<^verbatim>\<open>
  if config.backup: # todo: unit test
      backup_file_if_exists(output)
  if not domains_combined:
      eprint("The list of domains to block is empty, nothing to do, exiting.", ...)
      quit(1)
  ...
  output.write(make_output_file_header(config_dict))
  for domain in domains_combined:
      ...
      output.write(...)
  output.close() # make sure file is written before restarting dnsmasq
  if not config.no_restart_dnsmasq:
      if config.mode != 'hosts':
          restart_dnsmasq_service()
  \<close>
  The output is a lazy, atomic file: it is created by the first write and moved into
  place by \<^verbatim>\<open>close\<close>. \<open>header\<close> is what \<^verbatim>\<open>make_output_file_header\<close> returns.
  \<open>write_output\<close> is the part after the backup.
\<close>

definition write_output :: "bytes \<Rightarrow> Dnsgate_Config \<Rightarrow> domain list \<Rightarrow> filesystem
    \<Rightarrow> (error + unit) \<times> filesystem" where
  "write_output header config domains_combined fs =
     (if domains_combined = [] then (Inl (SystemExit 1), fs)
      else
        (let fs = fs\<lparr>output_file :=
                     Some (header @ concat (map (output_line config) domains_combined))\<rparr>;
             fs = (if \<not> no_restart_dnsmasq config \<and> mode config \<noteq> ''hosts''
                   then fs\<lparr>dnsmasq_restarts := Suc (dnsmasq_restarts fs)\<rparr>
                   else fs)
         in (Inr (), fs)))"

text \<open>
  The whole of \<^verbatim>\<open>generate\<close>: an exception of the first part or of the backup ends the
  run where it is raised.
\<close>

definition generate :: "(domain \<Rightarrow> domain) \<Rightarrow> (bytes \<Rightarrow> bytes option)
    \<Rightarrow> (domain set \<Rightarrow> domain list) \<Rightarrow> (bytes \<Rightarrow> text_copy) \<Rightarrow> string \<Rightarrow> bytes
    \<Rightarrow> Dnsgate_Config \<Rightarrow> (string \<times> bytes option) list \<Rightarrow> filesystem
    \<Rightarrow> (error + unit) \<times> filesystem" where
  "generate psl idna iter copy_text timestamp header config sources fs =
     (case final_domains psl idna iter config sources fs of
        Inl e \<Rightarrow> (Inl e, fs)
      | Inr domains_combined \<Rightarrow>
          (if backup config then
             (case backup_file_if_exists copy_text timestamp fs of
                (Inl e, fs) \<Rightarrow> (Inl e, fs)
              | (Inr u, fs) \<Rightarrow> write_output header config domains_combined fs)
           else write_output header config domains_combined fs))"

section \<open>Instances of the parameters\<close>

text \<open>
  For the concrete runs below. \<open>psl_one_label_suffix\<close> is \<^verbatim>\<open>dom.domain + '.' + dom.suffix\<close>
  for a suffix list in which every top-level label, and nothing longer, is a public
  suffix: the last two labels of a name, and an empty \<^verbatim>\<open>domain\<close> part for a bare
  top-level label.
\<close>

definition psl_one_label_suffix :: "domain \<Rightarrow> domain" where
  "psl_one_label_suffix d =
     (let labels = split_on CHR ''.'' d
      in if length labels < 2 then ''.'' @ d
         else join_on CHR ''.'' (drop (length labels - 2) labels))"

text \<open>The codec on a plain ASCII name with well-formed labels returns the name.\<close>

definition idna_plain :: "bytes \<Rightarrow> bytes option" where
  "idna_plain hostname = Some hostname"

text \<open>A configuration, a source and a file system for the concrete runs.\<close>

definition example_config :: "string \<Rightarrow> bool \<Rightarrow> Dnsgate_Config" where
  "example_config m block =
     \<lparr>mode = m, no_restart_dnsmasq = False, backup = True, block_at_psl = block,
      dest_ip = ''''\<rparr>"

definition example_sources :: "(string \<times> bytes option) list" where
  "example_sources = [(''http://hosts.example/list'', Some ''0.0.0.0 ads.example.com'')]"

definition example_filesystem :: filesystem where
  "example_filesystem =
     \<lparr>whitelist_file = None, blacklist_file = None, output_file = Some ''# old'',
      backup_files = [], dnsmasq_restarts = 0\<rparr>"

text \<open>The same with an output file that holds one byte outside ASCII.\<close>

definition example_filesystem_undecodable :: filesystem where
  "example_filesystem_undecodable =
     \<lparr>whitelist_file = None, blacklist_file = None, output_file = Some [CHR 0xFF],
      backup_files = [], dnsmasq_restarts = 0\<rparr>"

text \<open>
  The text-mode copy under an ASCII locale, for a file shorter than one copy buffer:
  a byte above 127 makes decoding raise before anything is written; otherwise CR LF
  and CR come out as LF.
\<close>

fun universal_newlines :: "bytes \<Rightarrow> bytes" where
  "universal_newlines [] = []"
| "universal_newlines (c # cs) =
     (if c = CHR 0x0D then
        (case cs of
           [] \<Rightarrow> [CHR 0x0A]
         | d # ds \<Rightarrow> if d = CHR 0x0A then CHR 0x0A # universal_newlines ds
                    else CHR 0x0A # universal_newlines cs)
      else c # universal_newlines cs)"

definition copy_text_ascii :: "bytes \<Rightarrow> text_copy" where
  "copy_text_ascii content =
     (if filter (\<lambda>c. (127::nat) < of_char c) content = []
      then Copied (universal_newlines content)
      else Undecodable [])"

section \<open>Splitting and joining\<close>

lemma split_where_nonempty: "split_where p s \<noteq> []"
  by (induction s) (auto split: list.splits)

lemma join_on_split_on: "join_on sep (split_on sep s) = s"
proof (induction s)
  case Nil
  then show ?case by (simp add: split_on_def)
next
  case (Cons c s)
  obtain w ws where ws: "split_where (\<lambda>c. c = sep) s = w # ws"
    using split_where_nonempty by (cases "split_where (\<lambda>c. c = sep) s") auto
  show ?case
  proof (cases "c = sep")
    case True
    with Cons ws show ?thesis by (simp add: split_on_def)
  next
    case False
    have "join_on sep ((c # w) # ws) = c # join_on sep (w # ws)"
      by (cases ws) auto
    with False Cons ws show ?thesis by (simp add: split_on_def)
  qed
qed

section \<open>Properties of the pruner\<close>

lemma prune_indices_hits:
  "prune_indices orig d ps is doms =
     (if hits orig ps is = [] then Inr doms
      else if length (hits orig ps is) = 1 \<and> d \<in> doms then Inr (doms - {d})
      else Inl KeyError)"
  by (induction "is" arbitrary: doms) (auto simp: hits_def)

lemma redundant_mono: "redundant A d \<Longrightarrow> A \<subseteq> B \<Longrightarrow> redundant B d"
  by (auto simp: redundant_def hits_def filter_empty_conv)

lemma prune_domains_Inr:
  "prune_domains orig ds doms = Inr T \<Longrightarrow> T = doms - {d \<in> set ds. redundant orig d}"
proof (induction ds arbitrary: doms)
  case Nil
  then show ?case by simp
next
  case (Cons d ds)
  then show ?case
    by (auto simp: prune_indices_hits redundant_def split: if_splits sum.splits)
qed

lemma prune_domains_none:
  "\<forall>d \<in> set ds. \<not> redundant orig d \<Longrightarrow> prune_domains orig ds doms = Inr doms"
  by (induction ds arbitrary: doms) (auto simp: prune_indices_hits redundant_def)

lemma prune_redundant_rules_subset:
  "prune_redundant_rules ds = Inr T \<Longrightarrow> T \<subseteq> set ds"
  unfolding prune_redundant_rules_def by (drule prune_domains_Inr) blast

text \<open>
  What the two loops compute on a set (a list without repetitions): the result depends
  on the set only, every domain is judged against the snapshot, and the run raises
  exactly when some domain is found redundant twice.
\<close>

lemma prune_domains_distinct:
  "distinct ds \<Longrightarrow> set ds \<subseteq> doms \<Longrightarrow>
   prune_domains orig ds doms =
     (if \<exists>d \<in> set ds. hit_twice orig d then Inl KeyError
      else Inr (doms - {d \<in> set ds. redundant orig d}))"
proof (induction ds arbitrary: doms)
  case Nil
  then show ?case by simp
next
  case (Cons d ds)
  let ?h = "hits orig (domain_parts_msb d) [0..<length (domain_parts_msb d)]"
  consider "?h = []" | "length ?h = 1" | "2 \<le> length ?h"
    by (cases ?h) (auto simp: Suc_le_eq)
  then show ?case
  proof cases
    case 1
    with Cons show ?thesis
      by (auto simp: prune_indices_hits redundant_def hit_twice_def)
  next
    case 2
    then have ne: "?h \<noteq> []" by auto
    from Cons.prems have "distinct ds" "set ds \<subseteq> doms - {d}" by auto
    from Cons.IH[OF this] 2 ne Cons.prems show ?thesis
      by (auto simp: prune_indices_hits redundant_def hit_twice_def)
  next
    case 3
    then have "?h \<noteq> []" "length ?h \<noteq> 1" by auto
    with 3 show ?thesis
      by (auto simp: prune_indices_hits hit_twice_def)
  qed
qed

lemma prune_redundant_rules_distinct:
  "distinct ds \<Longrightarrow>
   prune_redundant_rules ds =
     (if \<exists>d \<in> set ds. hit_twice (set ds) d then Inl KeyError
      else Inr {d \<in> set ds. \<not> redundant (set ds) d})"
  unfolding prune_redundant_rules_def
  by (subst prune_domains_distinct) auto

text \<open>
  Claim C2 (the pruner completes without error on every domain set). The code does
  not: a domain with two of its reversed-label prefixes in the snapshot is removed
  twice, and the second \<^verbatim>\<open>domains.remove(domain)\<close> raises \<^verbatim>\<open>KeyError\<close>. The first
  set has a top-level label, a name under it and a name under that; the second has the
  empty name, which the hosts-format reader produces.
\<close>

theorem prune_redundant_rules_raises:
  "prune_redundant_rules [''biz'', ''biz.biz'', ''www.biz.biz''] = Inl KeyError
   \<and> prune_redundant_rules ['''', ''biz'', ''ads.biz''] = Inl KeyError"
  by (simp add: prune_redundant_rules_def domain_parts_msb_def split_on_def)

text \<open>
  Claim C3 (no domain of the pruned set is covered by another). The code joins the
  reversed labels without turning them back, so for \<^verbatim>\<open>a.example.com\<close> it looks up
  \<^verbatim>\<open>com\<close> and \<^verbatim>\<open>com.example\<close>, never \<^verbatim>\<open>example.com\<close>: both names survive, although the
  labels of one are a proper suffix of the labels of the other.
\<close>

theorem prune_redundant_rules_keeps_subdomain:
  "prune_redundant_rules [''example.com'', ''a.example.com'']
     = Inr {''example.com'', ''a.example.com''}
   \<and> split_on CHR ''.'' ''a.example.com'' = [''a''] @ split_on CHR ''.'' ''example.com''"
  by (simp add: prune_redundant_rules_def domain_parts_msb_def split_on_def upt_rec)

text \<open>
  Claim C4 (pruning is idempotent). Whenever pruning a set returns a set \<open>T\<close>, pruning
  \<open>T\<close>, in whatever order it is iterated, returns \<open>T\<close> again.
\<close>

theorem prune_redundant_rules_idempotent:
  assumes "prune_redundant_rules ds = Inr T" and "set ts = T"
  shows "prune_redundant_rules ts = Inr T"
proof -
  from assms(1) have T: "T = set ds - {d \<in> set ds. redundant (set ds) d}"
    unfolding prune_redundant_rules_def by (rule prune_domains_Inr)
  then have "T \<subseteq> set ds" by blast
  with T have "\<forall>d \<in> set ts. \<not> redundant T d"
    using assms(2) redundant_mono by blast
  then have "prune_domains T ts T = Inr T"
    using assms(2) prune_domains_none by blast
  then show ?thesis
    using assms(2) by (simp add: prune_redundant_rules_def)
qed

theorem prune_redundant_rules_idempotent_witness:
  "prune_redundant_rules [''com'', ''a.com'', ''b.org''] = Inr {''com'', ''b.org''}
   \<and> set [''b.org'', ''com''] = {''com'', ''b.org''}
   \<and> prune_redundant_rules [''b.org'', ''com''] = Inr {''com'', ''b.org''}"
proof -
  have 1: "prune_redundant_rules [''com'', ''a.com'', ''b.org''] = Inr {''com'', ''b.org''}"
    by (auto simp: prune_redundant_rules_def domain_parts_msb_def split_on_def upt_rec)
  have 2: "set [''b.org'', ''com''] = {''com'', ''b.org''}"
    by auto
  from 1 2 prune_redundant_rules_idempotent [OF 1 2] show ?thesis
    by blast
qed

section \<open>Properties of the grouping\<close>

lemma group_by_tld_keys:
  "map (\<lambda>d. rev (split_on CHR ''.'' d)) (group_by_tld ds)
     = sort (map (\<lambda>d. rev (split_on CHR ''.'' d)) ds)"
proof -
  let ?key = "\<lambda>d. rev (split_on CHR ''.'' d)"
  let ?unkey = "\<lambda>r. join_on CHR ''.'' (rev r)"
  have "?key (?unkey r) = r" if "r \<in> set (sort (map ?key ds))" for r
    using that by (auto simp: join_on_split_on)
  then have "map (\<lambda>r. ?key (?unkey r)) (sort (map ?key ds)) = sort (map ?key ds)"
    by (intro map_idI)
  then show ?thesis
    by (simp add: group_by_tld_def comp_def)
qed

lemma mset_group_by_tld: "mset (group_by_tld ds) = mset ds"
proof -
  have "mset (group_by_tld ds) =
        image_mset (\<lambda>r. join_on CHR ''.'' (rev r))
          (image_mset (\<lambda>d. rev (split_on CHR ''.'' d)) (mset ds))"
    by (simp add: group_by_tld_def)
  also have "\<dots> = mset ds"
    by (simp add: multiset.map_comp comp_def join_on_split_on)
  finally show ?thesis .
qed

lemma set_group_by_tld: "set (group_by_tld ds) = set ds"
  using mset_group_by_tld by (rule mset_eq_setD)

lemma group_by_tld_order_irrelevant:
  assumes "mset ds' = mset ds"
  shows "group_by_tld ds' = group_by_tld ds"
proof -
  let ?key = "\<lambda>d. rev (split_on CHR ''.'' d)"
  from assms have "mset (map ?key ds') = mset (map ?key ds)"
    by simp
  then have "sort (map ?key ds') = sort (map ?key ds)"
    by (metis properties_for_sort sorted_sort mset_sort)
  then show ?thesis by (simp add: group_by_tld_def)
qed

text \<open>
  Claim C7 (the grouping is a permutation of its input, arranged by the reversed
  label sequences in lexicographic byte order). The output has the elements of the
  input with their multiplicities, so each once for a set; its reversed label
  sequences are ascending; it does not depend on the order in which the set was
  iterated; and the two names of the example come out with \<^verbatim>\<open>ads\<close> first.
\<close>

theorem group_by_tld_sorted_permutation:
  "mset (group_by_tld ds) = mset ds
   \<and> set (group_by_tld ds) = set ds
   \<and> (distinct ds \<longrightarrow> distinct (group_by_tld ds))
   \<and> sorted (map (\<lambda>d. rev (split_on CHR ''.'' d)) (group_by_tld ds))
   \<and> (mset ds' = mset ds \<longrightarrow> group_by_tld ds' = group_by_tld ds)
   \<and> group_by_tld [''ads.example.com'', ''tracker.example.com'']
       = [''ads.example.com'', ''tracker.example.com'']
   \<and> group_by_tld [''tracker.example.com'', ''ads.example.com'']
       = [''ads.example.com'', ''tracker.example.com'']"
proof (intro conjI impI)
  show "mset (group_by_tld ds) = mset ds" by (rule mset_group_by_tld)
  show "set (group_by_tld ds) = set ds" by (rule set_group_by_tld)
  show "distinct (group_by_tld ds)" if "distinct ds"
    using that mset_group_by_tld by (metis mset_eq_imp_distinct_iff)
  show "sorted (map (\<lambda>d. rev (split_on CHR ''.'' d)) (group_by_tld ds))"
    by (simp only: group_by_tld_keys sorted_sort)
  show "group_by_tld ds' = group_by_tld ds" if "mset ds' = mset ds"
    using that by (rule group_by_tld_order_irrelevant)
  show "group_by_tld [''ads.example.com'', ''tracker.example.com'']
       = [''ads.example.com'', ''tracker.example.com'']"
    by (simp add: group_by_tld_def split_on_def)
  show "group_by_tld [''tracker.example.com'', ''ads.example.com'']
       = [''ads.example.com'', ''tracker.example.com'']"
    by (simp add: group_by_tld_def split_on_def)
qed

theorem group_by_tld_sorted_permutation_witness:
  "distinct [''b.org'', ''zz.a.com'', ''a.com'']
   \<and> distinct (group_by_tld [''b.org'', ''zz.a.com'', ''a.com''])
   \<and> mset [''a.com'', ''b.org'', ''zz.a.com''] = mset [''b.org'', ''zz.a.com'', ''a.com'']
   \<and> group_by_tld [''a.com'', ''b.org'', ''zz.a.com'']
       = group_by_tld [''b.org'', ''zz.a.com'', ''a.com'']"
  using group_by_tld_sorted_permutation
    [of "[''b.org'', ''zz.a.com'', ''a.com'']" "[''a.com'', ''b.org'', ''zz.a.com'']"]
  by simp

section \<open>Properties of the readers\<close>

lemma remove_comments_append_hash:
  "CHR ''#'' \<notin> set a \<Longrightarrow> remove_comments_from_bytes (a @ CHR ''#'' # b) = a"
  by (induction a) auto

lemma remove_comments_clean:
  "CHR ''#'' \<notin> set a \<Longrightarrow> remove_comments_from_bytes a = a"
  by (induction a) auto

lemma hash_not_in_remove_comments: "CHR ''#'' \<notin> set (remove_comments_from_bytes s)"
  by (induction s) auto

lemma remove_comments_split:
  "CHR ''#'' \<in> set s \<Longrightarrow> \<exists>r. s = remove_comments_from_bytes s @ CHR ''#'' # r"
  by (induction s) auto

lemma not_space_hash: "\<not> is_space CHR ''#''"
  by (simp add: is_space_def)

lemma dropWhile_space_clean: "\<forall>c \<in> set s. \<not> is_space c \<Longrightarrow> dropWhile is_space s = s"
  by (cases s) auto

lemma dropWhile_space_keeps_tail:
  "\<not> is_space c \<Longrightarrow> \<exists>r'. dropWhile is_space (r @ c # t) = r' @ c # t"
proof (induction r)
  case Nil
  then show ?case by simp
next
  case (Cons a r)
  show ?case
  proof (cases "is_space a")
    case True
    with Cons show ?thesis by simp
  next
    case False
    then have "dropWhile is_space ((a # r) @ c # t) = (a # r) @ c # t" by simp
    then show ?thesis by blast
  qed
qed

lemma strip_no_space_prefix:
  assumes "\<forall>c \<in> set (remove_comments_from_bytes s). \<not> is_space c"
  shows "remove_comments_from_bytes (strip s) = remove_comments_from_bytes s"
proof (cases "CHR ''#'' \<in> set s")
  case False
  then have eq: "remove_comments_from_bytes s = s" by (rule remove_comments_clean)
  with assms have ns: "\<forall>c \<in> set s. \<not> is_space c" by simp
  then have "dropWhile is_space s = s" by (rule dropWhile_space_clean)
  moreover from ns have "dropWhile is_space (rev s) = rev s"
    by (intro dropWhile_space_clean) simp
  ultimately show ?thesis by (simp add: strip_def)
next
  case True
  define p where "p = remove_comments_from_bytes s"
  from True obtain r where s: "s = p @ CHR ''#'' # r"
    unfolding p_def using remove_comments_split by blast
  have np: "\<forall>c \<in> set p. \<not> is_space c" using assms p_def by simp
  have lead: "dropWhile is_space s = s"
  proof (cases p)
    case Nil
    with s show ?thesis by (simp add: not_space_hash)
  next
    case (Cons a p')
    with np have "\<not> is_space a" by simp
    with s Cons show ?thesis by simp
  qed
  have "rev s = rev r @ CHR ''#'' # rev p"
    by (simp add: s)
  with dropWhile_space_keeps_tail[OF not_space_hash, of "rev r" "rev p"]
  obtain r' where "dropWhile is_space (rev s) = r' @ CHR ''#'' # rev p"
    by auto
  then have "strip s = p @ CHR ''#'' # rev r'"
    by (simp add: strip_def lead)
  moreover have "CHR ''#'' \<notin> set p"
    unfolding p_def by (rule hash_not_in_remove_comments)
  ultimately show ?thesis
    by (simp add: remove_comments_append_hash p_def[symmetric])
qed

lemma remove_comments_expand_tabs:
  "remove_comments_from_bytes (expand_tabs s) = expand_tabs (remove_comments_from_bytes s)"
  by (induction s) (auto simp: expand_tabs_def)

lemma expand_tabs_clean: "\<forall>c \<in> set p. \<not> is_space c \<Longrightarrow> expand_tabs p = p"
  by (induction p) (auto simp: expand_tabs_def is_space_def)

lemma split_where_clean: "\<forall>c \<in> set a. \<not> P c \<Longrightarrow> split_where P a = [a]"
  by (induction a) auto

lemma split_where_clean_prefix:
  "\<forall>c \<in> set a. \<not> P c \<Longrightarrow>
   \<exists>w ws. split_where P (a @ b) = (a @ w) # ws"
proof (induction a)
  case Nil
  then show ?case
    using split_where_nonempty[of P b] by (cases "split_where P b") auto
next
  case (Cons c a)
  then obtain w ws where "split_where P (a @ b) = (a @ w) # ws" by auto
  with Cons.prems show ?case by simp
qed

lemma join_on_head: "\<exists>t. join_on sep (x # xs) = x @ t"
  by (cases xs) auto

lemma collapse_no_space_prefix:
  assumes "\<forall>c \<in> set (remove_comments_from_bytes l). \<not> is_space c"
  shows "remove_comments_from_bytes (join_on CHR '' '' (split_ws l)) = remove_comments_from_bytes l"
proof (cases "CHR ''#'' \<in> set l")
  case False
  then have eq: "remove_comments_from_bytes l = l" by (rule remove_comments_clean)
  with assms have "\<forall>c \<in> set l. \<not> is_space c" by simp
  then have "split_where is_space l = [l]" by (rule split_where_clean)
  then have "join_on CHR '' '' (split_ws l) = l"
    by (simp add: split_ws_def)
  then show ?thesis by simp
next
  case True
  define p where "p = remove_comments_from_bytes l"
  from True obtain r where l: "l = p @ CHR ''#'' # r"
    unfolding p_def using remove_comments_split by blast
  have "\<forall>c \<in> set (p @ [CHR ''#'']). \<not> is_space c"
    using assms p_def not_space_hash by simp
  from split_where_clean_prefix[OF this, of r]
  obtain w ws where "split_where is_space l = (p @ CHR ''#'' # w) # ws"
    by (auto simp: l)
  then have "split_ws l = (p @ CHR ''#'' # w) # filter (\<lambda>w. w \<noteq> []) ws"
    by (simp add: split_ws_def)
  then obtain t where "join_on CHR '' '' (split_ws l) = p @ CHR ''#'' # (w @ t)"
    using join_on_head[of "CHR '' ''" "p @ CHR ''#'' # w" "filter (\<lambda>w. w \<noteq> []) ws"] by auto
  moreover have "CHR ''#'' \<notin> set p"
    unfolding p_def by (rule hash_not_in_remove_comments)
  ultimately show ?thesis
    by (simp add: remove_comments_append_hash p_def[symmetric])
qed

lemma hosts_format_line_no_space:
  assumes "\<forall>c \<in> set (remove_comments_from_bytes line). \<not> is_space c"
  shows "hosts_format_line line = remove_comments_from_bytes line"
proof -
  let ?l = "expand_tabs line"
  let ?j = "join_on CHR '' '' (split_ws ?l)"
  have l: "remove_comments_from_bytes ?l = remove_comments_from_bytes line"
    using assms by (simp add: remove_comments_expand_tabs expand_tabs_clean)
  with assms have j: "remove_comments_from_bytes ?j = remove_comments_from_bytes line"
    by (simp add: collapse_no_space_prefix)
  with assms have "remove_comments_from_bytes (strip ?j) = remove_comments_from_bytes ?j"
    by (intro strip_no_space_prefix) simp
  with j show ?thesis
    by (simp add: hosts_format_line_def)
qed

lemma dnsgate_format_line_no_space:
  assumes "\<forall>c \<in> set (remove_comments_from_bytes line). \<not> is_space c"
  shows "dnsgate_format_line line = drop_empty_labels (remove_comments_from_bytes line)"
  using assms by (simp add: dnsgate_format_line_def strip_no_space_prefix)

lemma length_split_where: "length (split_where P s) = Suc (length (filter P s))"
  by (induction s) (auto split: list.splits simp: split_where_nonempty)

lemma hosts_format_field_in_range:
  "CHR '' '' \<in> set line \<Longrightarrow> 1 < length (split_on CHR '' '' line)"
proof -
  assume "CHR '' '' \<in> set line"
  then have "filter (\<lambda>c. c = CHR '' '') line \<noteq> []"
    by (simp add: filter_empty_conv)
  then have "0 < length (filter (\<lambda>c. c = CHR '' '') line)" by simp
  then show ?thesis by (simp add: split_on_def length_split_where)
qed

lemma hosts_format_lines_set:
  "hosts_format_lines lines domains =
     domains \<union> (\<lambda>l. drop_empty_labels (split_on CHR '' '' (hosts_format_line l) ! 1))
       ` {l \<in> set lines. CHR '' '' \<in> set (hosts_format_line l)}"
  by (induction lines arbitrary: domains) (auto simp: Let_def)

lemma dnsgate_format_lines_set:
  "dnsgate_format_lines lines domains =
     domains \<union> {d \<in> dnsgate_format_line ` set lines. d \<noteq> []}"
  by (induction lines arbitrary: domains) (auto simp: Let_def)

lemma finite_hosts_format_bytes: "finite (extract_domain_set_from_hosts_format_bytes b)"
  by (simp add: extract_domain_set_from_hosts_format_bytes_def hosts_format_lines_set)

lemma finite_dnsgate_format_file: "finite (extract_domain_set_from_dnsgate_format_file b)"
  by (simp add: extract_domain_set_from_dnsgate_format_file_def dnsgate_format_lines_set)

text \<open>
  Claim C9 (a hosts-format line without whitespace is taken whole as the domain). The
  hosts-format reader only takes a domain from a line that still holds a space after
  the comment is removed (\<^verbatim>\<open>if b' ' in line:  # hosts format\<close>). As amended: a line
  whose text before the first \<^verbatim>\<open>#\<close> has no whitespace contributes nothing to the set
  read from hosts-format bytes, wherever it stands among the lines; it is the reader of
  the local list files that takes that text as the domain and, when it is not empty
  after the empty labels are dropped, adds it.
\<close>

theorem line_without_whitespace:
  assumes "\<forall>c \<in> set (remove_comments_from_bytes line). \<not> is_space c"
  shows "hosts_format_lines (before @ line # after) domains
           = hosts_format_lines (before @ after) domains
       \<and> (drop_empty_labels (remove_comments_from_bytes line) \<noteq> [] \<longrightarrow>
            drop_empty_labels (remove_comments_from_bytes line)
              \<in> dnsgate_format_lines (before @ line # after) domains)"
proof -
  have "is_space CHR '' ''" by (simp add: is_space_def)
  with assms have "CHR '' '' \<notin> set (remove_comments_from_bytes line)" by blast
  then have "CHR '' '' \<notin> set (hosts_format_line line)"
    using assms by (simp add: hosts_format_line_no_space)
  then have "{l \<in> set (before @ line # after). CHR '' '' \<in> set (hosts_format_line l)}
           = {l \<in> set (before @ after). CHR '' '' \<in> set (hosts_format_line l)}"
    by auto
  then have 1: "hosts_format_lines (before @ line # after) domains
           = hosts_format_lines (before @ after) domains"
    by (simp only: hosts_format_lines_set)
  have "dnsgate_format_line line = drop_empty_labels (remove_comments_from_bytes line)"
    using assms by (rule dnsgate_format_line_no_space)
  then have 2: "drop_empty_labels (remove_comments_from_bytes line) \<noteq> [] \<longrightarrow>
            drop_empty_labels (remove_comments_from_bytes line)
              \<in> dnsgate_format_lines (before @ line # after) domains"
    by (auto simp: dnsgate_format_lines_set image_iff)
  from 1 2 show ?thesis by blast
qed

theorem line_without_whitespace_witness:
  "filter is_space (remove_comments_from_bytes ''.example.com#x y'') = []
   \<and> hosts_format_lines ([] @ ''.example.com#x y'' # []) {} = hosts_format_lines ([] @ []) {}
   \<and> drop_empty_labels (remove_comments_from_bytes ''.example.com#x y'') \<noteq> []
   \<and> ''example.com'' \<in> dnsgate_format_lines ([] @ ''.example.com#x y'' # []) {}"
proof -
  have h: "\<forall>c \<in> set (remove_comments_from_bytes ''.example.com#x y''). \<not> is_space c"
    by (simp add: is_space_def)
  have f: "filter is_space (remove_comments_from_bytes ''.example.com#x y'') = []"
    by (simp add: is_space_def)
  have d: "drop_empty_labels (remove_comments_from_bytes ''.example.com#x y'') = ''example.com''"
    by (simp add: drop_empty_labels_def split_on_def)
  from line_without_whitespace [OF h, of "[]" "[]" "{}"] f d show ?thesis
    by simp
qed

theorem hosts_line_without_whitespace_counterexample:
  "filter is_space (remove_comments_from_bytes ''example.com'') = []
   \<and> drop_empty_labels (remove_comments_from_bytes ''example.com'') = ''example.com''
   \<and> ''example.com'' \<notin> extract_domain_set_from_hosts_format_bytes ''example.com''"
  by (simp add: extract_domain_set_from_hosts_format_bytes_def split_on_def hosts_format_line_def
     expand_tabs_def split_ws_def is_space_def strip_def drop_empty_labels_def)

text \<open>
  Claim C8 (no element of a parsed domain set is empty or holds whitespace). The
  hosts-format reader has no \<^verbatim>\<open>if len(line) > 0\<close>, which the reader of the local list
  files has: a line with one field and a comment adds the empty name. The reader of
  the local list files strips the line before it removes the comment, so the blanks
  between a domain and its comment stay in the domain.
\<close>

theorem readers_keep_artifacts:
  "extract_domain_set_from_hosts_format_bytes (''0.0.0.0 #ads.example.com'' @ [CHR 0x0A]) = {''''}
   \<and> extract_domain_set_from_dnsgate_format_file (''example.com # blocked'' @ [CHR 0x0A])
       = {''example.com ''}"
  by (simp add: extract_domain_set_from_hosts_format_bytes_def split_on_def hosts_format_line_def
     expand_tabs_def split_ws_def is_space_def strip_def drop_empty_labels_def
     extract_domain_set_from_dnsgate_format_file_def splitlines_def dnsgate_format_line_def)

section \<open>Properties of the reconciliation\<close>

lemma validate_domains_set:
  "validate_domains idna hs valid = valid \<union> {e. \<exists>h \<in> set hs. idna h = Some e}"
  by (induction hs arbitrary: valid) (auto split: option.splits)

lemma validate_domain_list_set:
  "validate_domain_list idna hs = {e. \<exists>h \<in> set hs. idna h = Some e}"
  by (simp add: validate_domain_list_def validate_domains_set)

lemma finite_validate_domains: "finite valid \<Longrightarrow> finite (validate_domains idna hs valid)"
  by (induction hs arbitrary: valid) (auto split: option.splits)

lemma finite_validate_domain_list: "finite (validate_domain_list idna hs)"
  by (simp add: validate_domain_list_def finite_validate_domains)

lemma strip_domains_set: "strip_domains psl ds stripped = stripped \<union> psl ` set ds"
  by (induction ds arbitrary: stripped) auto

lemma strip_to_psl_set: "strip_to_psl psl ds = psl ` set ds"
  by (simp add: strip_to_psl_def strip_domains_set)

lemma unblock_whitelisted_set:
  "unblock_whitelisted psl ws combined = combined - psl ` set ws"
  by (induction ws arbitrary: combined) (auto simp: Let_def)

lemma readd_subdomains_from_orig:
  "readd_subdomains psl wl ds combined \<subseteq> combined \<union> (set ds - wl)"
proof (induction ds arbitrary: combined)
  case Nil
  then show ?case by simp
next
  case (Cons d ds)
  have 1: "readd_subdomains psl wl ds (insert d combined) \<subseteq> insert d combined \<union> (set ds - wl)"
    by (rule Cons.IH)
  have 2: "readd_subdomains psl wl ds combined \<subseteq> combined \<union> (set ds - wl)"
    by (rule Cons.IH)
  show ?case
  proof (cases "d \<notin> wl \<and> d \<notin> combined \<and> psl d \<notin> combined")
    case True
    then have "readd_subdomains psl wl (d # ds) combined
             = readd_subdomains psl wl ds (insert d combined)"
      by (simp add: Let_def)
    with 1 True show ?thesis by auto
  next
    case False
    then have "readd_subdomains psl wl (d # ds) combined = readd_subdomains psl wl ds combined"
      by (auto simp: Let_def)
    with 2 show ?thesis by auto
  qed
qed

lemma reconcile_rejects:
  "block \<and> m = ''hosts'' \<Longrightarrow> reconcile psl m block orig wl bl = Inl (SystemExit 1)"
  by (simp add: reconcile_def)

lemma reconcile_plain:
  "\<not> block \<Longrightarrow>
   reconcile psl m block orig wl bl = Inr ((set orig - set wl) \<union> bl)"
  by (simp add: reconcile_def)

lemma reconcile_at_psl:
  "block \<Longrightarrow> m \<noteq> ''hosts'' \<Longrightarrow>
   reconcile psl m block orig wl bl =
     Inr ((readd_subdomains psl (set wl) orig
             (if wl \<noteq> [] then unblock_whitelisted psl wl (strip_to_psl psl orig - set wl)
              else strip_to_psl psl orig) - set wl) \<union> bl)"
  by (simp add: reconcile_def Let_def)

lemma reconcile_cases:
  obtains "block" "m = ''hosts''" "reconcile psl m block orig wl bl = Inl (SystemExit 1)"
  | X where "reconcile psl m block orig wl bl = Inr ((X - set wl) \<union> bl)"
      "X \<subseteq> set orig \<union> psl ` set orig"
proof (cases block)
  case False
  have "set orig \<subseteq> set orig \<union> psl ` set orig" by blast
  moreover from False have "reconcile psl m block orig wl bl = Inr ((set orig - set wl) \<union> bl)"
    by (rule reconcile_plain)
  ultimately show ?thesis using that(2) by blast
next
  case True
  show ?thesis
  proof (cases "m = ''hosts''")
    case True
    with \<open>block\<close> have "reconcile psl m block orig wl bl = Inl (SystemExit 1)"
      by (simp add: reconcile_rejects)
    with \<open>block\<close> True show ?thesis using that(1) by blast
  next
    case False
    define c where "c = (if wl \<noteq> [] then unblock_whitelisted psl wl (strip_to_psl psl orig - set wl)
                         else strip_to_psl psl orig)"
    have "c \<subseteq> psl ` set orig"
      by (auto simp: c_def unblock_whitelisted_set strip_to_psl_set)
    moreover have "readd_subdomains psl (set wl) orig c \<subseteq> c \<union> (set orig - set wl)"
      by (rule readd_subdomains_from_orig)
    ultimately have "readd_subdomains psl (set wl) orig c \<subseteq> set orig \<union> psl ` set orig"
      by blast
    moreover have "reconcile psl m block orig wl bl =
        Inr ((readd_subdomains psl (set wl) orig c - set wl) \<union> bl)"
      unfolding c_def using \<open>block\<close> False by (rule reconcile_at_psl)
    ultimately show ?thesis using that(2) by blast
  qed
qed

lemma reconcile_returns:
  assumes "\<not> (block \<and> m = ''hosts'')"
  shows "\<exists>R. reconcile psl m block orig wl bl = Inr R"
proof (rule reconcile_cases[of block m psl orig wl bl])
  assume "block" "m = ''hosts''"
  with assms show ?thesis by simp
next
  fix X assume "reconcile psl m block orig wl bl = Inr ((X - set wl) \<union> bl)"
  then show ?thesis by blast
qed

lemma reconcile_blacklist:
  assumes "reconcile psl m block orig wl bl = Inr R"
  shows "bl \<subseteq> R \<and> (R - bl) \<inter> set wl = {}"
proof (rule reconcile_cases[of block m psl orig wl bl])
  assume "reconcile psl m block orig wl bl = Inl (SystemExit 1)"
  with assms show ?thesis by simp
next
  fix X assume "reconcile psl m block orig wl bl = Inr ((X - set wl) \<union> bl)"
  with assms have "R = (X - set wl) \<union> bl" by simp
  then show ?thesis by blast
qed

lemma reconcile_provenance:
  assumes "reconcile psl m block orig wl bl = Inr R"
  shows "R \<subseteq> set orig \<union> psl ` set orig \<union> bl"
proof (rule reconcile_cases[of block m psl orig wl bl])
  assume "reconcile psl m block orig wl bl = Inl (SystemExit 1)"
  with assms show ?thesis by simp
next
  fix X assume "reconcile psl m block orig wl bl = Inr ((X - set wl) \<union> bl)"
    and X: "X \<subseteq> set orig \<union> psl ` set orig"
  with assms have "R = (X - set wl) \<union> bl" by simp
  with X show ?thesis by blast
qed

lemma finite_reconcile:
  assumes "reconcile psl m block orig wl bl = Inr R" and "finite bl"
  shows "finite R"
proof -
  have "finite (set orig \<union> psl ` set orig \<union> bl)" using assms(2) by simp
  with reconcile_provenance[OF assms(1)] show ?thesis by (rule finite_subset)
qed

text \<open>
  Claim C5 (the local blacklist wins over the whitelist). Unless root reduction is
  asked for in hosts mode, the reconciliation returns a set that holds every domain of
  the local blacklist, whitelisted or not, and whose other elements are all outside
  the whitelist: the whitelist is subtracted first, the local blacklist united last.
\<close>

theorem local_blacklist_override_wins:
  assumes "\<not> (block \<and> m = ''hosts'')"
  shows "\<exists>R. reconcile psl m block orig wl bl = Inr R
           \<and> bl \<subseteq> R \<and> (R - bl) \<inter> set wl = {}"
proof -
  from assms obtain R where R: "reconcile psl m block orig wl bl = Inr R"
    using reconcile_returns by blast
  then have "bl \<subseteq> R \<and> (R - bl) \<inter> set wl = {}" by (rule reconcile_blacklist)
  with R show ?thesis by blast
qed

text \<open>
  Claim C1 (with root reduction, blacklist \<^verbatim>\<open>ads.example.com\<close> and whitelist
  \<^verbatim>\<open>example.com\<close> reconcile to the empty set). As amended: the reduced root
  \<^verbatim>\<open>example.com\<close> is removed by the whitelist subtraction, and the re-addition pass
  then adds \<^verbatim>\<open>ads.example.com\<close> back, because that name is not itself whitelisted and
  its root is no longer in the reduced set; the result is the set holding
  \<^verbatim>\<open>ads.example.com\<close>.
\<close>

theorem reconcile_example:
  assumes "psl ''ads.example.com'' = ''example.com''"
  shows "strip_to_psl psl [''ads.example.com''] - set [''example.com''] = {}
       \<and> readd_subdomains psl (set [''example.com'']) [''ads.example.com''] {}
           = {''ads.example.com''}
       \<and> reconcile psl ''dnsmasq'' True [''ads.example.com''] [''example.com''] {}
           = Inr {''ads.example.com''}"
proof -
  have 1: "strip_to_psl psl [''ads.example.com''] = {''example.com''}"
    by (simp add: strip_to_psl_def assms)
  have 2: "readd_subdomains psl {''example.com''} [''ads.example.com''] {}
           = {''ads.example.com''}"
    by simp
  have 3: "reconcile psl ''dnsmasq'' True [''ads.example.com''] [''example.com''] {}
           = Inr {''ads.example.com''}"
    by (simp add: reconcile_at_psl 1 2)
  from 1 2 3 show ?thesis by simp
qed

theorem reconcile_example_witness:
  "psl_one_label_suffix ''ads.example.com'' = ''example.com''
   \<and> reconcile psl_one_label_suffix ''dnsmasq'' True [''ads.example.com''] [''example.com''] {}
           = Inr {''ads.example.com''}"
proof -
  have h: "psl_one_label_suffix ''ads.example.com'' = ''example.com''"
    by (simp add: psl_one_label_suffix_def split_on_def)
  from h reconcile_example [of psl_one_label_suffix, OF h] show ?thesis by blast
qed

theorem reconcile_example_counterexample:
  "psl_one_label_suffix ''ads.example.com'' = ''example.com''
   \<and> reconcile psl_one_label_suffix ''dnsmasq'' True [''ads.example.com''] [''example.com''] {}
       \<noteq> Inr {}"
proof -
  have h: "psl_one_label_suffix ''ads.example.com'' = ''example.com''"
    by (simp add: psl_one_label_suffix_def split_on_def)
  have 1: "strip_to_psl psl_one_label_suffix [''ads.example.com''] = {''example.com''}"
    by (simp add: strip_to_psl_def h)
  have "reconcile psl_one_label_suffix ''dnsmasq'' True [''ads.example.com''] [''example.com''] {}
           = Inr {''ads.example.com''}"
    by (simp add: reconcile_at_psl 1)
  with h show ?thesis by simp
qed

theorem local_blacklist_override_wins_witness:
  "\<not> (True \<and> ''dnsmasq'' = ''hosts'')
   \<and> (\<exists>R. reconcile psl_one_label_suffix ''dnsmasq'' True [''ads.example.com'']
             [''example.com''] {''example.com''} = Inr R
          \<and> ''example.com'' \<in> R \<and> ''example.com'' \<in> set [''example.com''])"
proof -
  have h: "\<not> (True \<and> ''dnsmasq'' = ''hosts'')" by simp
  from local_blacklist_override_wins [OF h, of psl_one_label_suffix "[''ads.example.com'']"
      "[''example.com'']" "{''example.com''}"] h
  show ?thesis by auto
qed

section \<open>Properties of the run\<close>

lemma iterates_set: "iterates iter \<Longrightarrow> finite S \<Longrightarrow> set (iter S) = S"
  by (simp add: iterates_def)

lemma iterates_empty: "iterates iter \<Longrightarrow> iter {} = []"
  using iterates_set[of iter "{}"] by simp

lemma iterates_sorted_list_of_set: "iterates sorted_list_of_set"
  by (simp add: iterates_def)

lemma finite_read_blacklist: "finite (read_blacklist content)"
  by (cases content) (simp_all add: read_blacklist_def finite_dnsgate_format_file)

lemma final_domains_rejects:
  "block_at_psl config \<and> mode config = ''hosts'' \<Longrightarrow>
   final_domains psl idna iter config sources fs = Inl (SystemExit 1)"
  by (simp add: final_domains_def Let_def reconcile_rejects)

lemma final_domains_stages:
  assumes "final_domains psl idna iter config sources fs = Inr out"
  obtains R P where
    "reconcile psl (mode config) (block_at_psl config)
       (iter (validate_domain_list idna (iter (read_sources sources {}))))
       (iter (read_whitelist idna iter (whitelist_file fs)))
       (read_blacklist (blacklist_file fs)) = Inr R"
    "prune_redundant_rules (iter (validate_domain_list idna (iter R))) = Inr P"
    "out = group_by_tld (iter P)"
  using assms by (auto simp: final_domains_def Let_def split: sum.splits)

lemma final_domains_empty:
  assumes "iterates iter"
    and "reconcile psl (mode config) (block_at_psl config)
       (iter (validate_domain_list idna (iter (read_sources sources {}))))
       (iter (read_whitelist idna iter (whitelist_file fs)))
       (read_blacklist (blacklist_file fs)) = Inr {}"
  shows "final_domains psl idna iter config sources fs = Inr []"
proof -
  have e: "iter {} = []" using assms(1) by (rule iterates_empty)
  have "validate_domain_list idna [] = {}" by (simp add: validate_domain_list_def)
  moreover have "prune_redundant_rules [] = Inr {}" by (simp add: prune_redundant_rules_def)
  moreover have "group_by_tld [] = []" by (simp add: group_by_tld_def)
  ultimately show ?thesis
    using assms(2) e by (simp add: final_domains_def Let_def)
qed

lemma generate_Inl:
  "final_domains psl idna iter config sources fs = Inl e \<Longrightarrow>
   generate psl idna iter copy_text timestamp header config sources fs = (Inl e, fs)"
  by (simp add: generate_def)

lemma write_output_empty: "write_output header config [] fs = (Inl (SystemExit 1), fs)"
  by (simp add: write_output_def)

lemma write_output_written:
  "out \<noteq> [] \<Longrightarrow> fst (write_output header config out fs) = Inr ()"
  by (simp add: write_output_def Let_def)

lemma write_output_error:
  "fst (write_output header config out fs) = Inl e \<Longrightarrow>
   snd (write_output header config out fs) = fs"
  by (cases "out = []") (simp_all add: write_output_empty write_output_written)

text \<open>The backup never touches the output file, and fails in two ways only.\<close>

lemma output_file_backup:
  "output_file (snd (backup_file_if_exists copy_text timestamp fs)) = output_file fs"
  by (simp add: backup_file_if_exists_def split: option.splits text_copy.splits)

lemma backup_errors:
  "fst (backup_file_if_exists copy_text timestamp fs) = Inl e \<Longrightarrow>
   e = UnicodeDecodeError \<or> e = FileExistsError"
  by (auto simp: backup_file_if_exists_def split: option.splits text_copy.splits if_splits)

lemma generate_no_backup:
  "final_domains psl idna iter config sources fs = Inr out \<Longrightarrow> \<not> backup config \<Longrightarrow>
   generate psl idna iter copy_text timestamp header config sources fs
     = write_output header config out fs"
  by (simp add: generate_def)

lemma generate_backup_failed:
  "final_domains psl idna iter config sources fs = Inr out \<Longrightarrow> backup config \<Longrightarrow>
   fst (backup_file_if_exists copy_text timestamp fs) = Inl e \<Longrightarrow>
   generate psl idna iter copy_text timestamp header config sources fs
     = (Inl e, snd (backup_file_if_exists copy_text timestamp fs))"
  by (cases "backup_file_if_exists copy_text timestamp fs") (simp add: generate_def)

lemma generate_backup_made:
  "final_domains psl idna iter config sources fs = Inr out \<Longrightarrow> backup config \<Longrightarrow>
   fst (backup_file_if_exists copy_text timestamp fs) = Inr u \<Longrightarrow>
   generate psl idna iter copy_text timestamp header config sources fs
     = write_output header config out (snd (backup_file_if_exists copy_text timestamp fs))"
  by (cases "backup_file_if_exists copy_text timestamp fs") (simp add: generate_def)

lemma generate_error_output:
  assumes "fst (generate psl idna iter copy_text timestamp header config sources fs) = Inl e"
  shows "output_file (snd (generate psl idna iter copy_text timestamp header config sources fs))
           = output_file fs"
proof (cases "final_domains psl idna iter config sources fs")
  case (Inl e')
  then show ?thesis by (simp add: generate_Inl)
next
  case (Inr out)
  show ?thesis
  proof (cases "backup config")
    case False
    with Inr assms show ?thesis
      by (simp add: generate_no_backup write_output_error)
  next
    case True
    show ?thesis
    proof (cases "fst (backup_file_if_exists copy_text timestamp fs)")
      case (Inl e')
      with Inr True show ?thesis
        by (simp add: generate_backup_failed output_file_backup)
    next
      case (Inr u)
      with \<open>final_domains psl idna iter config sources fs = Inr out\<close> True assms
      show ?thesis
        by (simp add: generate_backup_made write_output_error output_file_backup)
    qed
  qed
qed

lemma generate_empty:
  assumes "final_domains psl idna iter config sources fs = Inr []"
  shows "fst (generate psl idna iter copy_text timestamp header config sources fs)
           = Inl (SystemExit 1)
         \<or> backup config
           \<and> (fst (generate psl idna iter copy_text timestamp header config sources fs)
                 = Inl UnicodeDecodeError
              \<or> fst (generate psl idna iter copy_text timestamp header config sources fs)
                 = Inl FileExistsError)"
proof (cases "backup config")
  case False
  with assms show ?thesis
    by (simp add: generate_no_backup write_output_empty)
next
  case True
  show ?thesis
  proof (cases "fst (backup_file_if_exists copy_text timestamp fs)")
    case (Inl e)
    then have "e = UnicodeDecodeError \<or> e = FileExistsError" by (rule backup_errors)
    with assms True Inl show ?thesis
      by (auto simp: generate_backup_failed)
  next
    case (Inr u)
    with assms True show ?thesis
      by (simp add: generate_backup_made write_output_empty)
  qed
qed

text \<open>
  Claim C6 (a configuration error ends the run with the output file untouched). Root
  reduction in hosts mode makes \<^verbatim>\<open>generate\<close> stop with \<^verbatim>\<open>quit(1)\<close> on every input, with
  no file changed. An empty final list, and so an empty reconciled set, ends the run in
  an error before the first write: \<^verbatim>\<open>quit(1)\<close>, unless a backup was asked for and the
  backup itself raised; without a backup it is \<^verbatim>\<open>quit(1)\<close> with no file changed. And
  whenever the run ends in an error, whichever it is, the output file is what it was.
\<close>

theorem generate_configuration_error:
  "(block_at_psl config \<and> mode config = ''hosts'' \<longrightarrow>
      generate psl idna iter copy_text timestamp header config sources fs
        = (Inl (SystemExit 1), fs))
   \<and> (final_domains psl idna iter config sources fs = Inr [] \<longrightarrow>
        (fst (generate psl idna iter copy_text timestamp header config sources fs)
           = Inl (SystemExit 1)
         \<or> backup config
           \<and> (fst (generate psl idna iter copy_text timestamp header config sources fs)
                 = Inl UnicodeDecodeError
              \<or> fst (generate psl idna iter copy_text timestamp header config sources fs)
                 = Inl FileExistsError))
        \<and> output_file (snd (generate psl idna iter copy_text timestamp header config sources fs))
            = output_file fs)
   \<and> (final_domains psl idna iter config sources fs = Inr [] \<and> \<not> backup config \<longrightarrow>
        generate psl idna iter copy_text timestamp header config sources fs
          = (Inl (SystemExit 1), fs))
   \<and> (iterates iter
        \<and> reconcile psl (mode config) (block_at_psl config)
            (iter (validate_domain_list idna (iter (read_sources sources {}))))
            (iter (read_whitelist idna iter (whitelist_file fs)))
            (read_blacklist (blacklist_file fs)) = Inr {} \<longrightarrow>
        final_domains psl idna iter config sources fs = Inr [])
   \<and> (\<forall>e. fst (generate psl idna iter copy_text timestamp header config sources fs) = Inl e \<longrightarrow>
        output_file (snd (generate psl idna iter copy_text timestamp header config sources fs))
          = output_file fs)"
proof (intro conjI impI allI)
  assume "block_at_psl config \<and> mode config = ''hosts''"
  then have "final_domains psl idna iter config sources fs = Inl (SystemExit 1)"
    by (rule final_domains_rejects)
  then show "generate psl idna iter copy_text timestamp header config sources fs
        = (Inl (SystemExit 1), fs)"
    by (rule generate_Inl)
next
  assume a: "final_domains psl idna iter config sources fs = Inr []"
  then show "fst (generate psl idna iter copy_text timestamp header config sources fs)
           = Inl (SystemExit 1)
         \<or> backup config
           \<and> (fst (generate psl idna iter copy_text timestamp header config sources fs)
                 = Inl UnicodeDecodeError
              \<or> fst (generate psl idna iter copy_text timestamp header config sources fs)
                 = Inl FileExistsError)"
    by (rule generate_empty)
  then obtain e where
    "fst (generate psl idna iter copy_text timestamp header config sources fs) = Inl e"
    by blast
  then show "output_file (snd (generate psl idna iter copy_text timestamp header config sources fs))
            = output_file fs"
    by (rule generate_error_output)
next
  assume "final_domains psl idna iter config sources fs = Inr [] \<and> \<not> backup config"
  then show "generate psl idna iter copy_text timestamp header config sources fs
          = (Inl (SystemExit 1), fs)"
    by (simp add: generate_no_backup write_output_empty)
next
  assume "iterates iter
        \<and> reconcile psl (mode config) (block_at_psl config)
            (iter (validate_domain_list idna (iter (read_sources sources {}))))
            (iter (read_whitelist idna iter (whitelist_file fs)))
            (read_blacklist (blacklist_file fs)) = Inr {}"
  then show "final_domains psl idna iter config sources fs = Inr []"
    using final_domains_empty by blast
next
  fix e
  assume "fst (generate psl idna iter copy_text timestamp header config sources fs) = Inl e"
  then show "output_file (snd (generate psl idna iter copy_text timestamp header config sources fs))
          = output_file fs"
    by (rule generate_error_output)
qed

text \<open>
  Claim C10 (the run never makes up a domain). Every domain of the final sorted list is
  the encoding, by the last validation, of a validated source domain, of the public
  root of one, or of a domain of the local blacklist file.
\<close>

theorem final_domains_provenance:
  assumes "iterates iter"
    and "final_domains psl idna iter config sources fs = Inr out"
    and "d \<in> set out"
  shows "\<exists>x. (x \<in> validate_domain_list idna (iter (read_sources sources {}))
              \<or> x \<in> psl ` validate_domain_list idna (iter (read_sources sources {}))
              \<or> x \<in> read_blacklist (blacklist_file fs))
            \<and> idna x = Some d"
proof -
  let ?O = "validate_domain_list idna (iter (read_sources sources {}))"
  let ?B = "read_blacklist (blacklist_file fs)"
  from assms(2) obtain R P where
    R: "reconcile psl (mode config) (block_at_psl config) (iter ?O)
          (iter (read_whitelist idna iter (whitelist_file fs))) ?B = Inr R"
    and P: "prune_redundant_rules (iter (validate_domain_list idna (iter R))) = Inr P"
    and out: "out = group_by_tld (iter P)"
    by (rule final_domains_stages)
  have "finite ?O" by (rule finite_validate_domain_list)
  with assms(1) have O: "set (iter ?O) = ?O" by (rule iterates_set)
  from R have sub: "R \<subseteq> set (iter ?O) \<union> psl ` set (iter ?O) \<union> ?B"
    by (rule reconcile_provenance)
  have "finite R" using R finite_read_blacklist by (rule finite_reconcile)
  with assms(1) have Rset: "set (iter R) = R" by (rule iterates_set)
  let ?V = "validate_domain_list idna (iter R)"
  have "finite ?V" by (rule finite_validate_domain_list)
  with assms(1) have V: "set (iter ?V) = ?V" by (rule iterates_set)
  from P have PV: "P \<subseteq> set (iter ?V)" by (rule prune_redundant_rules_subset)
  with V \<open>finite ?V\<close> have "finite P" by (simp add: finite_subset)
  with assms(1) have "set (iter P) = P" by (rule iterates_set)
  with out assms(3) have "d \<in> P" by (simp add: set_group_by_tld)
  with PV V have "d \<in> ?V" by blast
  then obtain x where "x \<in> R" "idna x = Some d"
    by (auto simp: validate_domain_list_set Rset)
  with sub O show ?thesis by auto
qed

theorem generate_configuration_error_witness:
  "block_at_psl (example_config ''hosts'' True) \<and> mode (example_config ''hosts'' True) = ''hosts''
   \<and> generate psl_one_label_suffix idna_plain sorted_list_of_set copy_text_ascii ''1.5''
        ''# new'' (example_config ''hosts'' True) example_sources example_filesystem
       = (Inl (SystemExit 1), example_filesystem)
   \<and> final_domains psl_one_label_suffix idna_plain sorted_list_of_set
        (example_config ''dnsmasq'' False) [] example_filesystem = Inr []
   \<and> fst (generate psl_one_label_suffix idna_plain sorted_list_of_set copy_text_ascii ''1.5''
        ''# new'' (example_config ''dnsmasq'' False) [] example_filesystem) = Inl (SystemExit 1)
   \<and> output_file (snd (generate psl_one_label_suffix idna_plain sorted_list_of_set
        copy_text_ascii ''1.5'' ''# new'' (example_config ''dnsmasq'' False) []
        example_filesystem)) = Some ''# old''
   \<and> final_domains psl_one_label_suffix idna_plain sorted_list_of_set
        (example_config ''dnsmasq'' False) [] example_filesystem_undecodable = Inr []
   \<and> fst (generate psl_one_label_suffix idna_plain sorted_list_of_set copy_text_ascii ''1.5''
        ''# new'' (example_config ''dnsmasq'' False) [] example_filesystem_undecodable)
       = Inl UnicodeDecodeError
   \<and> output_file (snd (generate psl_one_label_suffix idna_plain sorted_list_of_set
        copy_text_ascii ''1.5'' ''# new'' (example_config ''dnsmasq'' False) []
        example_filesystem_undecodable)) = Some [CHR 0xFF]"
proof -
  have h: "block_at_psl (example_config ''hosts'' True)
           \<and> mode (example_config ''hosts'' True) = ''hosts''"
    by (simp add: example_config_def)
  have e: "final_domains psl_one_label_suffix idna_plain sorted_list_of_set
        (example_config ''dnsmasq'' False) [] example_filesystem = Inr []"
    by code_simp
  have e': "final_domains psl_one_label_suffix idna_plain sorted_list_of_set
        (example_config ''dnsmasq'' False) [] example_filesystem_undecodable = Inr []"
    by code_simp
  have b: "backup (example_config ''dnsmasq'' False)"
    by (simp add: example_config_def)
  have k: "fst (backup_file_if_exists copy_text_ascii ''1.5'' example_filesystem) = Inr ()"
    by (simp add: backup_file_if_exists_def example_filesystem_def copy_text_ascii_def)
  have k': "fst (backup_file_if_exists copy_text_ascii ''1.5'' example_filesystem_undecodable)
       = Inl UnicodeDecodeError"
    by (simp add: backup_file_if_exists_def example_filesystem_undecodable_def
        copy_text_ascii_def)
  have g: "fst (generate psl_one_label_suffix idna_plain sorted_list_of_set copy_text_ascii
        ''1.5'' ''# new'' (example_config ''dnsmasq'' False) [] example_filesystem)
       = Inl (SystemExit 1)"
    by (simp add: generate_backup_made [OF e b k] write_output_empty)
  have g': "fst (generate psl_one_label_suffix idna_plain sorted_list_of_set copy_text_ascii
        ''1.5'' ''# new'' (example_config ''dnsmasq'' False) [] example_filesystem_undecodable)
       = Inl UnicodeDecodeError"
    by (simp add: generate_backup_failed [OF e' b k'])
  have o: "output_file example_filesystem = Some ''# old''"
    by (simp add: example_filesystem_def)
  have o': "output_file example_filesystem_undecodable = Some [CHR 0xFF]"
    by (simp add: example_filesystem_undecodable_def)
  from generate_configuration_error
    [where psl = psl_one_label_suffix and idna = idna_plain and iter = sorted_list_of_set
       and copy_text = copy_text_ascii and timestamp = "''1.5''"
       and header = "''# new''" and config = "example_config ''hosts'' True"
       and sources = example_sources and fs = example_filesystem]
    generate_configuration_error
    [where psl = psl_one_label_suffix and idna = idna_plain and iter = sorted_list_of_set
       and copy_text = copy_text_ascii and timestamp = "''1.5''"
       and header = "''# new''" and config = "example_config ''dnsmasq'' False"
       and sources = "[]" and fs = example_filesystem]
    generate_configuration_error
    [where psl = psl_one_label_suffix and idna = idna_plain and iter = sorted_list_of_set
       and copy_text = copy_text_ascii and timestamp = "''1.5''"
       and header = "''# new''" and config = "example_config ''dnsmasq'' False"
       and sources = "[]" and fs = example_filesystem_undecodable]
    h e e' g g' o o'
  show ?thesis by simp
qed

theorem final_domains_provenance_witness:
  "iterates sorted_list_of_set
   \<and> final_domains psl_one_label_suffix idna_plain sorted_list_of_set
        (example_config ''dnsmasq'' True) example_sources example_filesystem
       = Inr [''example.com'']
   \<and> ''example.com'' \<in> set [''example.com'']
   \<and> (\<exists>x. (x \<in> validate_domain_list idna_plain
                   (sorted_list_of_set (read_sources example_sources {}))
              \<or> x \<in> psl_one_label_suffix ` validate_domain_list idna_plain
                   (sorted_list_of_set (read_sources example_sources {}))
              \<or> x \<in> read_blacklist (blacklist_file example_filesystem))
            \<and> idna_plain x = Some ''example.com'')"
proof -
  have i: "iterates sorted_list_of_set"
    by (simp add: iterates_def)
  have f: "final_domains psl_one_label_suffix idna_plain sorted_list_of_set
        (example_config ''dnsmasq'' True) example_sources example_filesystem
       = Inr [''example.com'']"
    by code_simp
  have d: "''example.com'' \<in> set [''example.com'']"
    by simp
  from i f d final_domains_provenance [OF i f d] show ?thesis
    by blast
qed

end
